theory Spec2Isabelle
  imports Main
begin

section \<open>Python strings and the string methods the script calls\<close>

text \<open>
  The script \<^verbatim>\<open>scripts/lint-queue-update.py\<close> works on Python \<^verbatim>\<open>str\<close> values, which are
  sequences of Unicode code points. A code point is a natural number here and a string
  is a list of them, so that the characters Python treats as whitespace or as line
  boundaries beyond ASCII (U+0085, U+2028, ...) are part of the model.
\<close>

type_synonym pystr = "nat list"

definition u :: "string \<Rightarrow> pystr" where
  \<comment> \<open>an ASCII literal of the source as a Python string\<close>
  "u s = map of_char s"

definition TAB :: nat where "TAB = 9"
definition LF :: nat where "LF = 10"
definition CR :: nat where "CR = 13"
definition HASH :: nat where "HASH = 35"

definition isspace :: "nat \<Rightarrow> bool" where
  \<comment> \<open>the code points for which \<^verbatim>\<open>str.isspace\<close> holds; \<^verbatim>\<open>str.strip()\<close> removes these\<close>
  "isspace c \<longleftrightarrow>
     (9 \<le> c \<and> c \<le> 13) \<or> (28 \<le> c \<and> c \<le> 32) \<or> c = 133 \<or> c = 160 \<or> c = 5760 \<or>
     (8192 \<le> c \<and> c \<le> 8202) \<or> c = 8232 \<or> c = 8233 \<or> c = 8239 \<or> c = 8287 \<or> c = 12288"

definition is_linebreak :: "nat \<Rightarrow> bool" where
  \<comment> \<open>the line boundaries of \<^verbatim>\<open>str.splitlines\<close>: LF, VT, FF, CR, FS, GS, RS, NEL, LS, PS\<close>
  "is_linebreak c \<longleftrightarrow>
     (10 \<le> c \<and> c \<le> 13) \<or> (28 \<le> c \<and> c \<le> 30) \<or> c = 133 \<or> c = 8232 \<or> c = 8233"

text \<open>
  \<^verbatim>\<open>str.splitlines()\<close> (without \<^verbatim>\<open>keepends\<close>): the text is cut at every line boundary, CR LF
  counts as one boundary, and a text that ends in a boundary has no empty last line.
\<close>

fun splitlines :: "pystr \<Rightarrow> pystr list" where
  "splitlines [] = []"
| "splitlines [c] = (if is_linebreak c then [[]] else [[c]])"
| "splitlines (c # d # cs) =
     (if c = CR \<and> d = LF then [] # splitlines cs
      else if is_linebreak c then [] # splitlines (d # cs)
      else (case splitlines (d # cs) of
              [] \<Rightarrow> [[c]]
            | l # ls \<Rightarrow> (c # l) # ls))"

text \<open>
  \<^verbatim>\<open>str.split(sep)\<close> for a separator of length one, the only kind the script passes
  (\<^verbatim>\<open>"\t"\<close>): the result is never empty, and the empty string gives one empty field.
\<close>

fun str_split :: "pystr \<Rightarrow> nat \<Rightarrow> pystr list" where
  "str_split [] sep = [[]]"
| "str_split (c # cs) sep =
     (if c = sep then [] # str_split cs sep
      else (case str_split cs sep of
              [] \<Rightarrow> [[c]]
            | p # ps \<Rightarrow> (c # p) # ps))"

text \<open>\<^verbatim>\<open>sep.join(xs)\<close>.\<close>

fun str_join :: "pystr \<Rightarrow> pystr list \<Rightarrow> pystr" where
  "str_join sep [] = []"
| "str_join sep [x] = x"
| "str_join sep (x # y # ys) = x @ sep @ str_join sep (y # ys)"

text \<open>\<^verbatim>\<open>s.startswith(prefix)\<close> and \<^verbatim>\<open>s.strip()\<close>.\<close>

definition startswith :: "pystr \<Rightarrow> pystr \<Rightarrow> bool" where
  "startswith s prefix \<longleftrightarrow> take (length prefix) s = prefix"

definition strip :: "pystr \<Rightarrow> pystr" where
  "strip s = rev (dropWhile isspace (rev (dropWhile isspace s)))"

section \<open>The file system and the standard error stream\<close>

text \<open>
  The world the script runs in: the text files by path, what has been printed on the
  error stream, the file accesses made so far, and the paths that cannot be opened for
  writing. A file's content is its decoded text; a path with no entry stands for a file
  that is missing or cannot be read, and reading it raises. An exception that ends the
  run is returned together with the world it leaves behind.
\<close>

datatype access = Read pystr | Write pystr

datatype exn = OSError | UnicodeEncodeError

record world =
  files :: "pystr \<rightharpoonup> pystr"
  err_stream :: pystr
  accesses :: "access list"
  read_only :: "pystr set"

text \<open>
  \<^verbatim>\<open>Path.read_text\<close> opens the file in text mode with universal newlines: CR LF and a
  lone CR both arrive as LF.
\<close>

fun universal_newlines :: "pystr \<Rightarrow> pystr" where
  "universal_newlines [] = []"
| "universal_newlines [c] = (if c = CR then [LF] else [c])"
| "universal_newlines (c # d # cs) =
     (if c = CR \<and> d = LF then LF # universal_newlines cs
      else if c = CR then LF # universal_newlines (d # cs)
      else c # universal_newlines (d # cs))"

definition read_text :: "pystr \<Rightarrow> world \<Rightarrow> (exn \<times> world) + (pystr \<times> world)" where
  "read_text path w =
     (case files w path of
        None \<Rightarrow> Inl (OSError, w)
      | Some content \<Rightarrow>
          Inr (universal_newlines content, w\<lparr>accesses := accesses w @ [Read path]\<rparr>))"

text \<open>
  The strict UTF-8 encoder that \<^verbatim>\<open>write_text(..., encoding="utf-8")\<close> uses takes every code
  point but the surrogates U+D800 to U+DFFF. A command-line argument holds a lone
  surrogate when its bytes are not valid UTF-8.
\<close>

definition encodable :: "pystr \<Rightarrow> bool" where
  "encodable s = list_all (\<lambda>c. c < 55296 \<or> 57343 < c) s"

text \<open>
  \<^verbatim>\<open>Path.write_text\<close> opens the file for writing, which raises when the file cannot be
  opened and empties it otherwise, and then writes the encoded text, which raises when
  the text cannot be encoded: the file is left empty then. On output LF is written as
  the platform's line separator, which is LF itself on POSIX, the platform modelled.
\<close>

definition write_text :: "pystr \<Rightarrow> pystr \<Rightarrow> world \<Rightarrow> (exn \<times> world) + world" where
  "write_text path data w =
     (if path \<in> read_only w then Inl (OSError, w)
      else if \<not> encodable data then
        Inl (UnicodeEncodeError,
             w\<lparr>files := (files w)(path \<mapsto> []), accesses := accesses w @ [Write path]\<rparr>)
      else
        Inr (w\<lparr>files := (files w)(path \<mapsto> data), accesses := accesses w @ [Write path]\<rparr>))"

text \<open>\<^verbatim>\<open>print(msg, file=sys.stderr)\<close>: the message and a newline.\<close>

definition print_stderr :: "pystr \<Rightarrow> world \<Rightarrow> world" where
  "print_stderr msg w = w\<lparr>err_stream := err_stream w @ msg @ [LF]\<rparr>"

section \<open>The script\<close>

text \<open>
  The state of the \<^verbatim>\<open>for\<close> loop of \<^verbatim>\<open>main\<close>: the output lines collected so far and the
  flag that a record matched.
\<close>

record loop_state =
  updated :: "pystr list"
  found :: bool

definition pad_parts :: "pystr list \<Rightarrow> pystr list" where
  \<comment> \<open>\<^verbatim>\<open>if len(parts) < 6: parts += [""] * (6 - len(parts))\<close>\<close>
  "pad_parts parts =
     (if length parts < 6 then parts @ replicate (6 - length parts) [] else parts)"

definition loop_body ::
  "pystr \<Rightarrow> pystr \<Rightarrow> pystr \<Rightarrow> pystr \<Rightarrow> pystr \<Rightarrow> loop_state \<Rightarrow> loop_state" where
  "loop_body task_id status commit note line st =
     (if startswith line [HASH] \<or> strip line = [] then
        st\<lparr>updated := updated st @ [line]\<rparr>
      else
        let parts = pad_parts (str_split line TAB) in
        if parts ! 1 = task_id then
          let parts' = parts[0 := status, 4 := commit, 5 := note] in
          \<lparr>updated = updated st @ [str_join [TAB] (take 6 parts')], found = True\<rparr>
        else
          st\<lparr>updated := updated st @ [str_join [TAB] (take 6 parts)]\<rparr>)"

fun for_loop ::
  "pystr \<Rightarrow> pystr \<Rightarrow> pystr \<Rightarrow> pystr \<Rightarrow> pystr list \<Rightarrow> loop_state \<Rightarrow> loop_state" where
  "for_loop task_id status commit note [] st = st"
| "for_loop task_id status commit note (line # lines) st =
     for_loop task_id status commit note lines (loop_body task_id status commit note line st)"

definition usage_msg :: pystr where
  "usage_msg = u ''Usage: lint-queue-update.py <queue> <id> <status> <commit> <note>''"

definition main :: "pystr list \<Rightarrow> world \<Rightarrow> (exn \<times> world) + (int \<times> world)" where
  "main argv w =
     (if length argv < 6 then Inr (2, print_stderr usage_msg w)
      else
        let queue_path = argv ! 1;
            task_id = argv ! 2;
            status = argv ! 3;
            commit = argv ! 4;
            note = argv ! 5
        in case read_text queue_path w of
             Inl e \<Rightarrow> Inl e
           | Inr (text, w1) \<Rightarrow>
               let lines = splitlines text;
                   st = for_loop task_id status commit note lines
                          \<lparr>updated = [], found = False\<rparr>
               in if \<not> found st then
                    Inr (1, print_stderr (u ''Task id not found: '' @ task_id) w1)
                  else
                    (case write_text queue_path (str_join [LF] (updated st) @ [LF]) w1 of
                       Inl e \<Rightarrow> Inl e
                     | Inr w2 \<Rightarrow> Inr (0, w2)))"

section \<open>What the loop does to one line\<close>

text \<open>
  The notions the properties below are stated with, each read off \<^verbatim>\<open>main\<close>: the test
  that sends a line through unchanged, the padded field list of a record line, the test
  that a record is the one looked for, and the two local variables \<^verbatim>\<open>lines\<close> and
  \<^verbatim>\<open>updated\<close> as functions of the file's content and the arguments.
\<close>

definition comment_or_blank :: "pystr \<Rightarrow> bool" where
  \<comment> \<open>\<^verbatim>\<open>line.startswith("#") or not line.strip()\<close>\<close>
  "comment_or_blank line \<longleftrightarrow> startswith line [HASH] \<or> strip line = []"

definition parts_of :: "pystr \<Rightarrow> pystr list" where
  \<comment> \<open>\<^verbatim>\<open>parts\<close> after the padding\<close>
  "parts_of line = pad_parts (str_split line TAB)"

definition matches :: "pystr \<Rightarrow> pystr \<Rightarrow> bool" where
  \<comment> \<open>a record line whose field 1 is the task id\<close>
  "matches task_id line \<longleftrightarrow> \<not> comment_or_blank line \<and> parts_of line ! 1 = task_id"

definition out_line :: "pystr \<Rightarrow> pystr \<Rightarrow> pystr \<Rightarrow> pystr \<Rightarrow> pystr \<Rightarrow> pystr" where
  \<comment> \<open>the line that one round of the loop appends to \<^verbatim>\<open>updated\<close>\<close>
  "out_line task_id status commit note line =
     (if comment_or_blank line then line
      else if parts_of line ! 1 = task_id then
        str_join [TAB] (take 6 ((parts_of line)[0 := status, 4 := commit, 5 := note]))
      else str_join [TAB] (take 6 (parts_of line)))"

definition lines_of :: "pystr \<Rightarrow> pystr list" where
  \<comment> \<open>\<^verbatim>\<open>lines\<close>: what \<^verbatim>\<open>read_text(...).splitlines()\<close> gives for a file's content\<close>
  "lines_of content = splitlines (universal_newlines content)"

definition updated_of :: "pystr list \<Rightarrow> pystr \<Rightarrow> pystr list" where
  \<comment> \<open>\<^verbatim>\<open>updated\<close> when the loop has finished\<close>
  "updated_of argv content =
     updated (for_loop (argv ! 2) (argv ! 3) (argv ! 4) (argv ! 5) (lines_of content)
                \<lparr>updated = [], found = False\<rparr>)"

definition clean :: "pystr \<Rightarrow> bool" where
  \<comment> \<open>a value with no tab and no line boundary in it\<close>
  "clean s \<longleftrightarrow> (\<forall>c\<in>set s. c \<noteq> TAB \<and> \<not> is_linebreak c)"

section \<open>Concrete queue files\<close>

definition prog :: pystr where "prog = u ''lint-queue-update.py''"
definition queue_tsv :: pystr where "queue_tsv = u ''queue.tsv''"

definition world_with :: "pystr \<Rightarrow> world" where
  "world_with content =
     \<lparr>files = [queue_tsv \<mapsto> content], err_stream = [], accesses = [], read_only = {}\<rparr>"

definition row :: "string list \<Rightarrow> pystr" where
  \<comment> \<open>the given fields with a tab between them\<close>
  "row fs = str_join [TAB] (map u fs)"

definition scenario_file :: pystr where
  "scenario_file =
     u ''# queue'' @ [LF] @
     row [''pending'', ''T1'', ''a'', ''b'', [], []] @ [LF] @
     row [''pending'', ''T2'', ''x'', ''y'', [], []] @ [LF]"

definition scenario_args :: "pystr list" where
  "scenario_args = [prog, queue_tsv, u ''T2'', u ''done'', u ''abc123'', u ''fixed bug'']"

definition scenario_result :: pystr where
  "scenario_result =
     u ''# queue'' @ [LF] @
     row [''pending'', ''T1'', ''a'', ''b'', [], []] @ [LF] @
     row [''done'', ''T2'', ''x'', ''y'', ''abc123'', ''fixed bug''] @ [LF]"

definition miss_args :: "pystr list" where
  "miss_args = [prog, queue_tsv, u ''T9'', u ''done'', u ''abc123'', u ''fixed bug'']"

definition few_args :: "pystr list" where
  "few_args = [prog, queue_tsv, u ''T2'', u ''done'']"



definition tab_note_args :: "pystr list" where
  "tab_note_args =
     [prog, queue_tsv, u ''T2'', u ''done'', u ''abc123'', u ''fixed'' @ [TAB] @ u ''bug'']"

definition hash_args :: "pystr list" where
  "hash_args = [prog, queue_tsv, u ''T2'', u ''#done'', u ''abc123'', u ''fixed bug'']"

definition hash_result :: pystr where
  "hash_result =
     u ''# queue'' @ [LF] @
     row [''pending'', ''T1'', ''a'', ''b'', [], []] @ [LF] @
     row [''#done'', ''T2'', ''x'', ''y'', ''abc123'', ''fixed bug''] @ [LF]"

definition dup_file :: pystr where
  "dup_file =
     row [''pending'', ''T2'', ''a'', ''b'', [], []] @ [LF] @
     u ''# note'' @ [LF] @
     row [''failed'', ''T2'', ''x'', ''y'', ''old'', ''stale'', ''extra''] @ [LF]"

definition dup_result :: pystr where
  "dup_result =
     row [''done'', ''T2'', ''a'', ''b'', ''abc123'', ''fixed bug''] @ [LF] @
     u ''# note'' @ [LF] @
     row [''done'', ''T2'', ''x'', ''y'', ''abc123'', ''fixed bug''] @ [LF]"

definition tab_note_result :: pystr where
  "tab_note_result =
     u ''# queue'' @ [LF] @
     row [''pending'', ''T1'', ''a'', ''b'', [], []] @ [LF] @
     row [''done'', ''T2'', ''x'', ''y'', ''abc123'', ''fixed'', ''bug''] @ [LF]"

definition world_after :: "pystr \<Rightarrow> pystr \<Rightarrow> access list \<Rightarrow> world" where
  \<comment> \<open>the world with the one queue file, a given error stream and access list\<close>
  "world_after content err acc =
     \<lparr>files = [queue_tsv \<mapsto> content], err_stream = err, accesses = acc, read_only = {}\<rparr>"


definition one_record_file :: pystr where
  "one_record_file = row [''pending'', ''T2'', ''x'', ''y'', [], []] @ [LF]"

definition tab_status_args :: "pystr list" where
  "tab_status_args =
     [prog, queue_tsv, u ''T2'', u ''do'' @ [TAB] @ u ''ne'', u ''abc123'', u ''fixed bug'']"

definition tab_status_result :: pystr where
  "tab_status_result =
     row [''do'', ''ne'', ''T2'', ''x'', ''y'', ''abc123'', ''fixed bug''] @ [LF]"

definition lf_status_args :: "pystr list" where
  "lf_status_args =
     [prog, queue_tsv, u ''T2'', u ''do'' @ [LF] @ u ''ne'', u ''abc123'', u ''fixed bug'']"

definition lf_status_result :: pystr where
  "lf_status_result =
     u ''do'' @ [LF] @ row [''ne'', ''T2'', ''x'', ''y'', ''abc123'', ''fixed bug''] @ [LF]"

definition lf_status_again :: pystr where
  "lf_status_again = row [''do'', [], [], [], [], []] @ [LF] @ lf_status_result"

definition lf_commit_args :: "pystr list" where
  "lf_commit_args =
     [prog, queue_tsv, u ''T2'', u ''done'', u ''ab'' @ [LF] @ u ''c'', u ''fixed bug'']"

definition lf_commit_result :: pystr where
  "lf_commit_result =
     row [''done'', ''T2'', ''x'', ''y'', ''ab''] @ [LF] @ row [''c'', ''fixed bug''] @ [LF]"

definition lf_commit_again :: pystr where
  "lf_commit_again = lf_commit_result @ row [''c'', ''fixed bug'', [], [], [], []] @ [LF]"

definition lf_note_args :: "pystr list" where
  "lf_note_args =
     [prog, queue_tsv, u ''T2'', u ''done'', u ''abc123'', u ''fixed'' @ [LF] @ u ''bug'']"

definition lf_note_result :: pystr where
  "lf_note_result =
     row [''done'', ''T2'', ''x'', ''y'', ''abc123'', ''fixed''] @ [LF] @ u ''bug'' @ [LF]"

definition lf_note_again :: pystr where
  "lf_note_again = lf_note_result @ row [''bug'', [], [], [], [], []] @ [LF]"

definition blank_file :: pystr where
  "blank_file = row [''x'', '' '', [], [], [], []] @ [LF]"

definition blank_args :: "pystr list" where
  \<comment> \<open>the task id is one space; status, commit and note are empty\<close>
  "blank_args = [prog, queue_tsv, u '' '', [], [], []]"

definition blank_result :: pystr where
  "blank_result = row [[], '' '', [], [], [], []] @ [LF]"

section \<open>Properties of the string methods\<close>

lemma strip_empty_iff: "strip s = [] \<longleftrightarrow> (\<forall>c\<in>set s. isspace c)"
proof
  assume "strip s = []"
  then have a: "\<forall>c\<in>set (dropWhile isspace s). isspace c"
    by (simp add: strip_def)
  have "dropWhile isspace s = []"
  proof (rule ccontr)
    assume ne: "dropWhile isspace s \<noteq> []"
    then have "\<not> isspace (hd (dropWhile isspace s))" by (rule hd_dropWhile)
    moreover have "hd (dropWhile isspace s) \<in> set (dropWhile isspace s)" using ne by simp
    ultimately show False using a by blast
  qed
  then show "\<forall>c\<in>set s. isspace c" by simp
next
  assume "\<forall>c\<in>set s. isspace c"
  then show "strip s = []" by (auto simp: strip_def dest: set_dropWhileD)
qed

lemma str_split_not_Nil: "str_split s sep \<noteq> []"
  by (induction s) (auto split: list.splits)

lemma str_split_no_sep: "sep \<notin> set s \<Longrightarrow> str_split s sep = [s]"
  by (induction s) auto


lemma str_split_parts: "p \<in> set (str_split s sep) \<Longrightarrow> set p \<subseteq> set s \<and> sep \<notin> set p"
proof (induction s arbitrary: p)
  case Nil
  then show ?case by auto
next
  case (Cons a s)
  obtain q qs where q: "str_split s sep = q # qs"
    using str_split_not_Nil by (cases "str_split s sep") auto
  have ih: "\<And>r. r \<in> set (q # qs) \<Longrightarrow> set r \<subseteq> set s \<and> sep \<notin> set r"
    using Cons.IH q by simp
  show ?case
  proof (cases "a = sep")
    case True
    with Cons.prems q ih show ?thesis by auto
  next
    case False
    with Cons.prems q have "p = a # q \<or> p \<in> set qs" by auto
    then show ?thesis
    proof
      assume "p = a # q"
      with False ih [of q] show ?thesis by auto
    next
      assume "p \<in> set qs"
      with ih [of p] show ?thesis by auto
    qed
  qed
qed


lemma str_split_append_sep:
  "sep \<notin> set x \<Longrightarrow> str_split (x @ sep # rest) sep = x # str_split rest sep"
  by (induction x) auto

lemma str_split_join:
  "xs \<noteq> [] \<Longrightarrow> \<forall>x\<in>set xs. sep \<notin> set x \<Longrightarrow> str_split (str_join [sep] xs) sep = xs"
proof (induction "[sep]" xs rule: str_join.induct)
  case 1
  then show ?case by simp
next
  case (2 x)
  then show ?case by (simp add: str_split_no_sep)
next
  case (3 x y ys)
  then show ?case by (simp add: str_split_append_sep)
qed

lemma splitlines_no_break:
  "l \<in> set (splitlines s) \<Longrightarrow> c \<in> set l \<Longrightarrow> \<not> is_linebreak c"
proof (induction s arbitrary: l rule: splitlines.induct)
  case 1
  then show ?case by simp
next
  case (2 a)
  then show ?case by (auto split: if_splits)
next
  case (3 a d cs)
  show ?case
  proof (cases "a = CR \<and> d = LF")
    case True
    with 3 show ?thesis by auto
  next
    case nocrlf: False
    show ?thesis
    proof (cases "is_linebreak a")
      case True
      with 3 nocrlf show ?thesis by auto
    next
      case False
      show ?thesis
      proof (cases "splitlines (d # cs)")
        case Nil
        with 3 nocrlf False show ?thesis by auto
      next
        case (Cons k ks)
        with "3.prems" nocrlf False have "l = a # k \<or> l \<in> set ks" by auto
        then show ?thesis
        proof
          assume l: "l = a # k"
          have "k \<in> set (splitlines (d # cs))" using Cons by simp
          then have "c \<in> set k \<Longrightarrow> \<not> is_linebreak c"
            using "3.IH"(3) nocrlf False by blast
          with l False "3.prems"(2) show ?thesis by auto
        next
          assume "l \<in> set ks"
          then have "l \<in> set (splitlines (d # cs))" using Cons by simp
          then show ?thesis using "3.IH"(3) nocrlf False "3.prems"(2) by blast
        qed
      qed
    qed
  qed
qed

lemma is_linebreak_LF: "is_linebreak LF" and is_linebreak_CR: "is_linebreak CR"
  by (simp_all add: is_linebreak_def LF_def CR_def)

lemma splitlines_append_LF:
  "\<forall>c\<in>set x. \<not> is_linebreak c \<Longrightarrow> splitlines (x @ LF # rest) = x # splitlines rest"
proof (induction x)
  case Nil
  show ?case by (cases rest) (simp_all add: is_linebreak_def LF_def CR_def)
next
  case (Cons a x)
  then have a: "\<not> is_linebreak a" and "a \<noteq> CR" using is_linebreak_CR by auto
  obtain d cs where "x @ LF # rest = d # cs" by (cases "x @ LF # rest") auto
  with Cons a \<open>a \<noteq> CR\<close> show ?case by auto
qed

lemma splitlines_join:
  "xs \<noteq> [] \<Longrightarrow> \<forall>x\<in>set xs. \<forall>c\<in>set x. \<not> is_linebreak c \<Longrightarrow>
   splitlines (str_join [LF] xs @ [LF]) = xs"
proof (induction "[LF]" xs rule: str_join.induct)
  case 1
  then show ?case by simp
next
  case (2 x)
  then show ?case using splitlines_append_LF [of x "[]"] by simp
next
  case (3 x y ys)
  then show ?case using splitlines_append_LF [of x "str_join [LF] (y # ys) @ [LF]"] by simp
qed

lemma universal_newlines_id: "CR \<notin> set s \<Longrightarrow> universal_newlines s = s"
  by (induction s rule: universal_newlines.induct) auto

section \<open>The loop and the whole run in closed form\<close>

lemma loop_body_eq:
  "loop_body t s c n line st =
     \<lparr>updated = updated st @ [out_line t s c n line],
      found = (found st \<or> matches t line)\<rparr>"
  by (simp add: loop_body_def out_line_def matches_def comment_or_blank_def parts_of_def Let_def)

lemma for_loop_eq:
  "for_loop t s c n lines st =
     \<lparr>updated = updated st @ map (out_line t s c n) lines,
      found = (found st \<or> (\<exists>l\<in>set lines. matches t l))\<rparr>"
  by (induction lines arbitrary: st) (auto simp: loop_body_eq)

lemma main_usage: "length argv < 6 \<Longrightarrow> main argv w = Inr (2, print_stderr usage_msg w)"
  by (simp add: main_def)

lemma updated_of_eq:
  "updated_of argv content =
     map (out_line (argv ! 2) (argv ! 3) (argv ! 4) (argv ! 5)) (lines_of content)"
  by (simp add: updated_of_def for_loop_eq)

lemma main_run:
  assumes "6 \<le> length argv" and "files w (argv ! 1) = Some content"
  shows "main argv w =
           (if \<exists>l\<in>set (lines_of content). matches (argv ! 2) l then
              (case write_text (argv ! 1) (str_join [LF] (updated_of argv content) @ [LF])
                      (w\<lparr>accesses := accesses w @ [Read (argv ! 1)]\<rparr>) of
                 Inl e \<Rightarrow> Inl e
               | Inr w2 \<Rightarrow> Inr (0, w2))
            else
              Inr (1, print_stderr (u ''Task id not found: '' @ argv ! 2)
                        (w\<lparr>accesses := accesses w @ [Read (argv ! 1)]\<rparr>)))"
  using assms
  by (simp add: main_def read_text_def Let_def for_loop_eq updated_of_eq lines_of_def)

lemmas ev = main_def read_text_def write_text_def encodable_def print_stderr_def loop_body_def
  pad_parts_def
  startswith_def strip_def isspace_def is_linebreak_def TAB_def LF_def CR_def HASH_def u_def
  row_def world_with_def prog_def queue_tsv_def Let_def

lemma lines_of_scenario:
  "lines_of scenario_file =
     [u ''# queue'', row [''pending'', ''T1'', ''a'', ''b'', [], []],
      row [''pending'', ''T2'', ''x'', ''y'', [], []]]"
  by (simp add: lines_of_def scenario_file_def ev)

lemma length_parts_of: "6 \<le> length (parts_of line)"
  by (simp add: parts_of_def pad_parts_def)

lemma six_or_more:
  "6 \<le> length xs \<Longrightarrow> \<exists>a b c d e f rest. xs = a # b # c # d # e # f # rest"
  by (simp add: eval_nat_numeral Suc_le_length_iff) blast

lemma out_line_match:
  assumes "matches t l"
  shows "out_line t s c n l = str_join [TAB] [s, t, parts_of l ! 2, parts_of l ! 3, c, n]"
proof -
  obtain a0 a1 a2 a3 a4 a5 rest where f: "parts_of l = a0 # a1 # a2 # a3 # a4 # a5 # rest"
    using six_or_more [OF length_parts_of] by blast
  from assms have "\<not> comment_or_blank l" and "parts_of l ! 1 = t"
    by (simp_all add: matches_def)
  then show ?thesis using f by (simp add: out_line_def eval_nat_numeral)
qed

lemma out_line_comment: "comment_or_blank l \<Longrightarrow> out_line t s c n l = l"
  by (simp add: out_line_def)

lemma out_line_other:
  "\<not> comment_or_blank l \<Longrightarrow> \<not> matches t l \<Longrightarrow>
   out_line t s c n l = str_join [TAB] (take 6 (parts_of l))"
  by (simp add: out_line_def matches_def)

section \<open>Rewriting a line twice\<close>

lemma set_str_join_subset: "set (str_join sep xs) \<subseteq> set sep \<union> \<Union> (set ` set xs)"
  by (induction sep xs rule: str_join.induct) auto

lemma parts_of_elem:
  assumes "p \<in> set (parts_of l)"
  shows "set p \<subseteq> set l \<and> TAB \<notin> set p"
proof -
  from assms have "p \<in> set (str_split l TAB) \<or> p = []"
    by (auto simp: parts_of_def pad_parts_def split: if_splits)
  then show ?thesis using str_split_parts [of p l TAB] by auto
qed

lemma parts_of_join:
  assumes "length q = 6" and "\<forall>p\<in>set q. TAB \<notin> set p"
  shows "parts_of (str_join [TAB] q) = q"
proof -
  from assms(1) have "q \<noteq> []" by auto
  then have "str_split (str_join [TAB] q) TAB = q"
    using assms(2) by (rule str_split_join)
  then show ?thesis using assms(1) by (simp add: parts_of_def pad_parts_def)
qed

lemma out_line_record:
  assumes "\<not> comment_or_blank l"
  obtains q where "length q = 6" and "out_line t s c n l = str_join [TAB] q"
    and "q ! 1 = parts_of l ! 1"
    and "parts_of l ! 1 = t \<Longrightarrow> q = [s, t, parts_of l ! 2, parts_of l ! 3, c, n]"
    and "parts_of l ! 1 \<noteq> t \<Longrightarrow> q = take 6 (parts_of l)"
    and "\<And>p. p \<in> set q \<Longrightarrow> p \<in> set (parts_of l) \<or> p = s \<or> p = c \<or> p = n"
proof -
  obtain a0 a1 a2 a3 a4 a5 rest where f: "parts_of l = a0 # a1 # a2 # a3 # a4 # a5 # rest"
    using six_or_more [OF length_parts_of] by blast
  show thesis
  proof (cases "a1 = t")
    case True
    show thesis
    proof (rule that [of "[s, t, a2, a3, c, n]"])
      show "out_line t s c n l = str_join [TAB] [s, t, a2, a3, c, n]"
        using assms f True by (simp add: out_line_def eval_nat_numeral)
    qed (use f True in \<open>auto simp: eval_nat_numeral\<close>)
  next
    case False
    show thesis
    proof (rule that [of "[a0, a1, a2, a3, a4, a5]"])
      show "out_line t s c n l = str_join [TAB] [a0, a1, a2, a3, a4, a5]"
        using assms f False by (simp add: out_line_def eval_nat_numeral)
    qed (use f False in \<open>auto simp: eval_nat_numeral\<close>)
  qed
qed

lemma startswith_join_hash:
  assumes "\<not> startswith s [HASH]"
  shows "\<not> startswith (str_join [TAB] (s # x # xs)) [HASH]"
  using assms by (cases s) (simp_all add: startswith_def TAB_def HASH_def)

lemma out_line_no_break:
  assumes "\<forall>ch\<in>set l. \<not> is_linebreak ch"
    and "\<forall>ch\<in>set s. \<not> is_linebreak ch" and "\<forall>ch\<in>set c. \<not> is_linebreak ch"
    and "\<forall>ch\<in>set n. \<not> is_linebreak ch"
  shows "\<forall>ch\<in>set (out_line t s c n l). \<not> is_linebreak ch"
proof (cases "comment_or_blank l")
  case True
  then show ?thesis using assms(1) by (simp add: out_line_comment)
next
  case False
  then obtain q where o: "out_line t s c n l = str_join [TAB] q"
    and el: "\<And>p. p \<in> set q \<Longrightarrow> p \<in> set (parts_of l) \<or> p = s \<or> p = c \<or> p = n"
    by (rule out_line_record [of l t s c n]) blast
  have "\<forall>p\<in>set q. \<forall>ch\<in>set p. \<not> is_linebreak ch"
    using el assms parts_of_elem by blast
  moreover have "\<not> is_linebreak TAB" by (simp add: is_linebreak_def TAB_def)
  ultimately show ?thesis
    unfolding o using set_str_join_subset [of "[TAB]" q] by auto
qed

lemma lines_of_join:
  assumes "xs \<noteq> []" and "\<forall>x\<in>set xs. \<forall>ch\<in>set x. \<not> is_linebreak ch"
  shows "lines_of (str_join [LF] xs @ [LF]) = xs"
proof -
  have "CR \<notin> set (str_join [LF] xs @ [LF])"
    using assms(2) set_str_join_subset [of "[LF]" xs] is_linebreak_CR
    by (auto simp: LF_def CR_def)
  then have "universal_newlines (str_join [LF] xs @ [LF]) = str_join [LF] xs @ [LF]"
    by (rule universal_newlines_id)
  then show ?thesis using assms by (simp add: lines_of_def splitlines_join)
qed

lemma parts_of_nth_no_tab: "k < 6 \<Longrightarrow> TAB \<notin> set (parts_of l ! k)"
proof -
  assume "k < 6"
  then have "parts_of l ! k \<in> set (parts_of l)"
    using length_parts_of [of l] by (intro nth_mem) simp
  then show ?thesis using parts_of_elem by blast
qed

lemma clean_no_tab: "clean s \<Longrightarrow> TAB \<notin> set s"
  by (auto simp: clean_def)

lemma lines_of_no_break: "l \<in> set (lines_of content) \<Longrightarrow> \<forall>ch\<in>set l. \<not> is_linebreak ch"
  using splitlines_no_break by (auto simp: lines_of_def)

lemma main_success:
  assumes "6 \<le> length argv" and "files w (argv ! 1) = Some content"
    and "main argv w = Inr (0, w')"
  shows "\<exists>l\<in>set (lines_of content). matches (argv ! 2) l"
    and "argv ! 1 \<notin> read_only w"
    and "encodable (str_join [LF] (updated_of argv content) @ [LF])"
    and "w' = w\<lparr>files := (files w)(argv ! 1 \<mapsto> str_join [LF] (updated_of argv content) @ [LF]),
                  accesses := accesses w @ [Read (argv ! 1), Write (argv ! 1)]\<rparr>"
  using main_run [OF assms(1,2)] assms(3)
  by (auto simp: write_text_def split: if_splits)

lemma out_line_six_fields:
  assumes "TAB \<notin> set s" and "TAB \<notin> set c" and "TAB \<notin> set n"
    and "\<not> comment_or_blank (out_line t s c n l)"
  shows "length (str_split (out_line t s c n l) TAB) = 6"
proof -
  have rec: "\<not> comment_or_blank l" using assms(4) by (auto simp: out_line_comment)
  then obtain q where len: "length q = 6" and o: "out_line t s c n l = str_join [TAB] q"
    and el: "\<And>p. p \<in> set q \<Longrightarrow> p \<in> set (parts_of l) \<or> p = s \<or> p = c \<or> p = n"
    by (rule out_line_record [of l t s c n]) blast
  have tabfree: "\<forall>p\<in>set q. TAB \<notin> set p"
    using el assms(1-3) parts_of_elem by blast
  from len have "q \<noteq> []" by auto
  then have "str_split (str_join [TAB] q) TAB = q" using tabfree by (rule str_split_join)
  then show ?thesis using o len by simp
qed

lemma pad_parts_append: "pad_parts p = p @ replicate (6 - length p) []"
  by (simp add: pad_parts_def)


lemma main_match:
  assumes "6 \<le> length argv" and "files w (argv ! 1) = Some content"
    and "\<exists>l\<in>set (lines_of content). matches (argv ! 2) l"
  shows "main argv w =
           (if argv ! 1 \<in> read_only w then
              Inl (OSError, w\<lparr>accesses := accesses w @ [Read (argv ! 1)]\<rparr>)
            else if encodable (str_join [LF] (updated_of argv content) @ [LF]) then
              Inr (0, w\<lparr>files := (files w)(argv ! 1 \<mapsto>
                                  str_join [LF] (updated_of argv content) @ [LF]),
                        accesses := accesses w @ [Read (argv ! 1), Write (argv ! 1)]\<rparr>)
            else
              Inl (UnicodeEncodeError,
                   w\<lparr>files := (files w)(argv ! 1 \<mapsto> []),
                     accesses := accesses w @ [Read (argv ! 1), Write (argv ! 1)]\<rparr>))"
  using main_run [OF assms(1,2)] assms(3) by (simp add: write_text_def)


lemma str_split_append:
  "str_split (x @ sep # rest) sep = str_split x sep @ str_split rest sep"
proof (induction x)
  case Nil
  show ?case by simp
next
  case (Cons a x)
  obtain p ps where "str_split x sep = p # ps"
    using str_split_not_Nil by (cases "str_split x sep") auto
  with Cons show ?case by simp
qed

lemma str_split_rewritten:
  assumes "TAB \<notin> set s" and "TAB \<notin> set t" and "TAB \<notin> set f2" and "TAB \<notin> set f3"
  obtains c1 r rs where
    "str_split (str_join [TAB] [s, t, f2, f3, c, n]) TAB = s # t # f2 # f3 # c1 # r # rs"
proof -
  obtain c1 cs where c: "str_split c TAB = c1 # cs"
    using str_split_not_Nil by (cases "str_split c TAB") auto
  obtain n1 ns where n: "str_split n TAB = n1 # ns"
    using str_split_not_Nil by (cases "str_split n TAB") auto
  obtain r rs where r: "cs @ n1 # ns = r # rs" by (cases "cs @ n1 # ns") auto
  have "str_split (c @ TAB # n) TAB = c1 # r # rs"
    using c n r by (simp add: str_split_append)
  then have "str_split (str_join [TAB] [s, t, f2, f3, c, n]) TAB = s # t # f2 # f3 # c1 # r # rs"
    using assms by (simp add: str_split_append_sep)
  then show thesis by (rule that)
qed

lemma out_line_rewritten:
  assumes "TAB \<notin> set s" and "TAB \<notin> set t" and "TAB \<notin> set f2" and "TAB \<notin> set f3"
  shows "out_line t s c n (str_join [TAB] [s, t, f2, f3, c, n]) =
           str_join [TAB] [s, t, f2, f3, c, n]"
    and "\<not> comment_or_blank (str_join [TAB] [s, t, f2, f3, c, n]) \<Longrightarrow>
           matches t (str_join [TAB] [s, t, f2, f3, c, n])"
proof -
  define L where "L = str_join [TAB] [s, t, f2, f3, c, n]"
  obtain c1 r rs where sp: "str_split L TAB = s # t # f2 # f3 # c1 # r # rs"
    unfolding L_def using assms by (rule str_split_rewritten)
  have p: "parts_of L = s # t # f2 # f3 # c1 # r # rs"
    unfolding parts_of_def pad_parts_def sp by simp
  have m: "parts_of L ! 1 = t" by (simp add: p)
  have e: "take 6 ((parts_of L)[0 := s, 4 := c, 5 := n]) = [s, t, f2, f3, c, n]"
    by (simp add: p eval_nat_numeral)
  have "out_line t s c n L = L"
    unfolding out_line_def m e by (simp add: L_def)
  then show "out_line t s c n (str_join [TAB] [s, t, f2, f3, c, n]) =
           str_join [TAB] [s, t, f2, f3, c, n]"
    unfolding L_def .
  have "\<not> comment_or_blank L \<Longrightarrow> matches t L" unfolding matches_def m by simp
  then show "\<not> comment_or_blank (str_join [TAB] [s, t, f2, f3, c, n]) \<Longrightarrow>
           matches t (str_join [TAB] [s, t, f2, f3, c, n])"
    unfolding L_def .
qed

lemma out_line_again:
  assumes "TAB \<notin> set s"
  shows "out_line t s c n (out_line t s c n l) = out_line t s c n l"
proof (cases "comment_or_blank l")
  case True
  then show ?thesis by (simp add: out_line_comment)
next
  case rec: False
  show ?thesis
  proof (cases "matches t l")
    case True
    then have t1: "parts_of l ! 1 = t" by (simp add: matches_def)
    have "TAB \<notin> set (parts_of l ! 1)" "TAB \<notin> set (parts_of l ! 2)"
      "TAB \<notin> set (parts_of l ! 3)"
      by (simp_all add: parts_of_nth_no_tab)
    with t1 have "TAB \<notin> set t" "TAB \<notin> set (parts_of l ! 2)" "TAB \<notin> set (parts_of l ! 3)"
      by simp_all
    with assms show ?thesis
      unfolding out_line_match [OF True] by (intro out_line_rewritten(1))
  next
    case False
    let ?q = "take 6 (parts_of l)"
    have o: "out_line t s c n l = str_join [TAB] ?q" using rec False by (rule out_line_other)
    have len: "length ?q = 6" using length_parts_of [of l] by simp
    have tabfree: "\<forall>p\<in>set ?q. TAB \<notin> set p"
      using parts_of_elem by (blast dest: in_set_takeD)
    have q1: "?q ! 1 \<noteq> t" using False rec by (simp add: matches_def)
    show ?thesis
    proof (cases "comment_or_blank (str_join [TAB] ?q)")
      case True
      then show ?thesis by (simp add: o out_line_comment)
    next
      case False
      have "parts_of (str_join [TAB] ?q) = ?q" using len tabfree by (rule parts_of_join)
      then show ?thesis using False q1 o by (simp add: out_line_def)
    qed
  qed
qed

lemma out_line_still_matches:
  assumes "matches t l" and "TAB \<notin> set s" and "\<not> startswith s [HASH]"
    and "\<exists>ch\<in>set (s @ t @ parts_of l ! 2 @ parts_of l ! 3 @ c @ n). \<not> isspace ch"
  shows "matches t (out_line t s c n l)"
proof -
  let ?q = "[s, t, parts_of l ! 2, parts_of l ! 3, c, n]"
  have t1: "parts_of l ! 1 = t" using assms(1) by (simp add: matches_def)
  have "TAB \<notin> set (parts_of l ! 1)" "TAB \<notin> set (parts_of l ! 2)"
    "TAB \<notin> set (parts_of l ! 3)"
    by (simp_all add: parts_of_nth_no_tab)
  with t1 have tabs: "TAB \<notin> set t" "TAB \<notin> set (parts_of l ! 2)" "TAB \<notin> set (parts_of l ! 3)"
    by simp_all
  have nh: "\<not> startswith (str_join [TAB] ?q) [HASH]"
    using assms(3) by (rule startswith_join_hash)
  obtain ch where ch: "ch \<in> set (s @ t @ parts_of l ! 2 @ parts_of l ! 3 @ c @ n)"
    "\<not> isspace ch"
    using assms(4) by blast
  have "set (s @ t @ parts_of l ! 2 @ parts_of l ! 3 @ c @ n) \<subseteq> set (str_join [TAB] ?q)"
    by auto
  with ch have "\<exists>ch\<in>set (str_join [TAB] ?q). \<not> isspace ch" by blast
  then have "strip (str_join [TAB] ?q) \<noteq> []" by (simp add: strip_empty_iff)
  with nh have "\<not> comment_or_blank (str_join [TAB] ?q)" by (simp add: comment_or_blank_def)
  then have "matches t (str_join [TAB] ?q)"
    using assms(2) tabs by (intro out_line_rewritten(2))
  then show ?thesis unfolding out_line_match [OF assms(1)] .
qed

lemma updated_of_no_break:
  assumes "\<forall>ch\<in>set (argv ! 3 @ argv ! 4 @ argv ! 5). \<not> is_linebreak ch"
  shows "\<forall>x\<in>set (updated_of argv content). \<forall>ch\<in>set x. \<not> is_linebreak ch"
proof
  fix x assume "x \<in> set (updated_of argv content)"
  then obtain l where l: "l \<in> set (lines_of content)"
    and x: "x = out_line (argv ! 2) (argv ! 3) (argv ! 4) (argv ! 5) l"
    by (auto simp: updated_of_eq)
  from assms have "\<forall>ch\<in>set (argv ! 3). \<not> is_linebreak ch"
    "\<forall>ch\<in>set (argv ! 4). \<not> is_linebreak ch" "\<forall>ch\<in>set (argv ! 5). \<not> is_linebreak ch"
    by auto
  then show "\<forall>ch\<in>set x. \<not> is_linebreak ch"
    unfolding x by (intro out_line_no_break lines_of_no_break [OF l])
qed

lemma lines_of_written:
  assumes "\<exists>l\<in>set (lines_of content). matches (argv ! 2) l"
    and "\<forall>ch\<in>set (argv ! 3 @ argv ! 4 @ argv ! 5). \<not> is_linebreak ch"
  shows "lines_of (str_join [LF] (updated_of argv content) @ [LF]) = updated_of argv content"
proof (rule lines_of_join)
  from assms(1) have "lines_of content \<noteq> []" by auto
  then show "updated_of argv content \<noteq> []" by (simp add: updated_of_eq)
  show "\<forall>x\<in>set (updated_of argv content). \<forall>ch\<in>set x. \<not> is_linebreak ch"
    using assms(2) by (rule updated_of_no_break)
qed

section \<open>The concrete files evaluated\<close>

lemma replicate_numeral: "replicate (numeral k) x = x # replicate (pred_numeral k) x"
  by (simp add: numeral_eq_Suc)

lemma scenario_run:
  "main scenario_args (world_with scenario_file) =
     Inr (0, \<lparr>files = [queue_tsv \<mapsto> scenario_result], err_stream = [],
              accesses = [Read queue_tsv, Write queue_tsv], read_only = {}\<rparr>)"
  by (simp add: ev scenario_args_def scenario_file_def scenario_result_def)

lemma updated_of_scenario:
  "updated_of scenario_args scenario_file =
     [u ''# queue'', row [''pending'', ''T1'', ''a'', ''b'', [], []],
      row [''done'', ''T2'', ''x'', ''y'', ''abc123'', ''fixed bug'']]"
  by (simp add: updated_of_def lines_of_scenario scenario_args_def ev)

lemma scenario_args_clean:
  "clean (scenario_args ! 3)" "clean (scenario_args ! 4)" "clean (scenario_args ! 5)"
  by (simp_all add: scenario_args_def clean_def u_def TAB_def is_linebreak_def)



lemma lines_of_dup:
  "lines_of dup_file =
     [row [''pending'', ''T2'', ''a'', ''b'', [], []], u ''# note'',
      row [''failed'', ''T2'', ''x'', ''y'', ''old'', ''stale'', ''extra'']]"
  by (simp add: lines_of_def dup_file_def ev)


lemma dup_run:
  "main scenario_args (world_with dup_file) =
     Inr (0, world_after dup_result [] [Read queue_tsv, Write queue_tsv])"
  by (simp add: ev world_after_def scenario_args_def dup_file_def dup_result_def)


lemma tab_note_run:
  "main tab_note_args (world_with scenario_file) =
     Inr (0, world_after tab_note_result [] [Read queue_tsv, Write queue_tsv])"
  by (simp add: ev world_after_def tab_note_args_def scenario_file_def tab_note_result_def)

lemma hash_twice:
  "main hash_args (world_with scenario_file) =
     Inr (0, world_after hash_result [] [Read queue_tsv, Write queue_tsv])"
  "main hash_args (world_after hash_result [] [Read queue_tsv, Write queue_tsv]) =
     Inr (1, world_after hash_result (u ''Task id not found: T2'' @ [LF])
               [Read queue_tsv, Write queue_tsv, Read queue_tsv])"
  by (simp_all add: ev world_after_def hash_args_def scenario_file_def hash_result_def)

lemma tab_status_twice:
  "main tab_status_args (world_with one_record_file) =
     Inr (0, world_after tab_status_result [] [Read queue_tsv, Write queue_tsv])"
  "main tab_status_args (world_after tab_status_result [] [Read queue_tsv, Write queue_tsv]) =
     Inr (1, world_after tab_status_result (u ''Task id not found: T2'' @ [LF])
               [Read queue_tsv, Write queue_tsv, Read queue_tsv])"
  by (simp_all add: ev world_after_def tab_status_args_def one_record_file_def
      tab_status_result_def)

lemma lf_status_twice:
  "main lf_status_args (world_with one_record_file) =
     Inr (0, world_after lf_status_result [] [Read queue_tsv, Write queue_tsv])"
  "main lf_status_args (world_after lf_status_result [] [Read queue_tsv, Write queue_tsv]) =
     Inr (0, world_after lf_status_again []
               [Read queue_tsv, Write queue_tsv, Read queue_tsv, Write queue_tsv])"
  by (simp_all add: ev world_after_def lf_status_args_def one_record_file_def
      lf_status_result_def lf_status_again_def replicate_numeral)

lemma lf_commit_twice:
  "main lf_commit_args (world_with one_record_file) =
     Inr (0, world_after lf_commit_result [] [Read queue_tsv, Write queue_tsv])"
  "main lf_commit_args (world_after lf_commit_result [] [Read queue_tsv, Write queue_tsv]) =
     Inr (0, world_after lf_commit_again []
               [Read queue_tsv, Write queue_tsv, Read queue_tsv, Write queue_tsv])"
  by (simp_all add: ev world_after_def lf_commit_args_def one_record_file_def
      lf_commit_result_def lf_commit_again_def replicate_numeral)

lemma lf_note_twice:
  "main lf_note_args (world_with one_record_file) =
     Inr (0, world_after lf_note_result [] [Read queue_tsv, Write queue_tsv])"
  "main lf_note_args (world_after lf_note_result [] [Read queue_tsv, Write queue_tsv]) =
     Inr (0, world_after lf_note_again []
               [Read queue_tsv, Write queue_tsv, Read queue_tsv, Write queue_tsv])"
  by (simp_all add: ev world_after_def lf_note_args_def one_record_file_def
      lf_note_result_def lf_note_again_def replicate_numeral)

lemma blank_twice:
  "main blank_args (world_with blank_file) =
     Inr (0, world_after blank_result [] [Read queue_tsv, Write queue_tsv])"
  "main blank_args (world_after blank_result [] [Read queue_tsv, Write queue_tsv]) =
     Inr (1, world_after blank_result (u ''Task id not found:  '' @ [LF])
               [Read queue_tsv, Write queue_tsv, Read queue_tsv])"
  by (simp_all add: ev world_after_def blank_args_def blank_file_def blank_result_def)

lemma results_differ:
  "lf_status_again \<noteq> lf_status_result" "lf_commit_again \<noteq> lf_commit_result"
  "lf_note_again \<noteq> lf_note_result"
  by (simp_all add: lf_status_again_def lf_commit_again_def lf_note_again_def row_def)

lemma updated_of_dup:
  "updated_of scenario_args dup_file =
     [row [''done'', ''T2'', ''a'', ''b'', ''abc123'', ''fixed bug''], u ''# note'',
      row [''done'', ''T2'', ''x'', ''y'', ''abc123'', ''fixed bug'']]"
  by (simp add: updated_of_def lines_of_dup scenario_args_def ev)

section \<open>The properties of the specification\<close>

text \<open>
  C1 (lookup miss). The file exists and no record line of it has the task id in field 1
  (after padding). Then \<^verbatim>\<open>main\<close> returns exit code 1, the error stream gains the line
  \<^verbatim>\<open>Task id not found: <task_id>\<close>, the only file access is the read, and the files are
  what they were: nothing is written.
\<close>

theorem lookup_miss:
  assumes "6 \<le> length argv"
    and "files w (argv ! 1) = Some content"
    and "\<forall>line\<in>set (lines_of content). \<not> matches (argv ! 2) line"
  shows "main argv w =
           Inr (1, w\<lparr>err_stream := err_stream w @ u ''Task id not found: '' @ argv ! 2 @ [LF],
                     accesses := accesses w @ [Read (argv ! 1)]\<rparr>)"
  using assms by (simp add: main_run print_stderr_def)

theorem lookup_miss_witness:
  "6 \<le> length miss_args \<and>
   files (world_with scenario_file) (miss_args ! 1) = Some scenario_file \<and>
   list_all (\<lambda>line. \<not> matches (miss_args ! 2) line) (lines_of scenario_file) \<and>
   main miss_args (world_with scenario_file) =
     Inr (1, \<lparr>files = [queue_tsv \<mapsto> scenario_file],
              err_stream = u ''Task id not found: T9'' @ [LF],
              accesses = [Read queue_tsv], read_only = {}\<rparr>)"
proof -
  have a: "6 \<le> length miss_args" by (simp add: miss_args_def)
  have b: "files (world_with scenario_file) (miss_args ! 1) = Some scenario_file"
    by (simp add: miss_args_def world_with_def)
  have c: "\<forall>line\<in>set (lines_of scenario_file). \<not> matches (miss_args ! 2) line"
    by (simp add: lines_of_scenario matches_def comment_or_blank_def parts_of_def miss_args_def ev)
  show ?thesis
    using a b c lookup_miss [OF a b c]
    by (simp add: miss_args_def world_with_def u_def list_all_iff)
qed




text \<open>
  C3 (six fields), as the code has it. On the success path, when status, commit and
  note contain no tab and no line boundary, the lines of the written file are exactly
  the lines of \<^verbatim>\<open>updated\<close>, and each of them that is a record line has exactly 6
  tab-separated fields; the line written for an input record line is its field list,
  padded with empty strings up to 6, with fields 0, 4 and 5 replaced when it matches,
  cut after the 6th field.
\<close>

theorem six_fields_when_clean:
  assumes "6 \<le> length argv" and "files w (argv ! 1) = Some content"
    and "main argv w = Inr (0, w')"
    and "clean (argv ! 3)" and "clean (argv ! 4)" and "clean (argv ! 5)"
  shows "files w' (argv ! 1) = Some (str_join [LF] (updated_of argv content) @ [LF]) \<and>
         lines_of (str_join [LF] (updated_of argv content) @ [LF]) = updated_of argv content \<and>
         (\<forall>l\<in>set (updated_of argv content).
            \<not> comment_or_blank l \<longrightarrow> length (str_split l TAB) = 6) \<and>
         (\<forall>k<length (lines_of content). \<not> comment_or_blank (lines_of content ! k) \<longrightarrow>
            updated_of argv content ! k =
              str_join [TAB] (take 6
                (if matches (argv ! 2) (lines_of content ! k)
                 then (str_split (lines_of content ! k) TAB @
                         replicate (6 - length (str_split (lines_of content ! k) TAB)) [])
                        [0 := argv ! 3, 4 := argv ! 4, 5 := argv ! 5]
                 else str_split (lines_of content ! k) TAB @
                        replicate (6 - length (str_split (lines_of content ! k) TAB)) [])))"
proof -
  have hit: "\<exists>l\<in>set (lines_of content). matches (argv ! 2) l"
    by (rule main_success(1) [OF assms(1-3)])
  have w': "w' = w\<lparr>files := (files w)(argv ! 1 \<mapsto> str_join [LF] (updated_of argv content) @ [LF]),
                  accesses := accesses w @ [Read (argv ! 1), Write (argv ! 1)]\<rparr>"
    by (rule main_success(4) [OF assms(1-3)])
  have a: "files w' (argv ! 1) = Some (str_join [LF] (updated_of argv content) @ [LF])"
    by (simp add: w')
  have nb: "\<forall>ch\<in>set (argv ! 3 @ argv ! 4 @ argv ! 5). \<not> is_linebreak ch"
    using assms(4-6) by (auto simp: clean_def)
  have b: "lines_of (str_join [LF] (updated_of argv content) @ [LF]) = updated_of argv content"
    using hit nb by (rule lines_of_written)
  have tabs: "TAB \<notin> set (argv ! 3)" "TAB \<notin> set (argv ! 4)" "TAB \<notin> set (argv ! 5)"
    using assms(4-6) by (simp_all add: clean_no_tab)
  have c: "\<forall>l\<in>set (updated_of argv content).
            \<not> comment_or_blank l \<longrightarrow> length (str_split l TAB) = 6"
    using out_line_six_fields [OF tabs] by (auto simp: updated_of_eq)
  have d: "\<forall>k<length (lines_of content). \<not> comment_or_blank (lines_of content ! k) \<longrightarrow>
            updated_of argv content ! k =
              str_join [TAB] (take 6
                (if matches (argv ! 2) (lines_of content ! k)
                 then (str_split (lines_of content ! k) TAB @
                         replicate (6 - length (str_split (lines_of content ! k) TAB)) [])
                        [0 := argv ! 3, 4 := argv ! 4, 5 := argv ! 5]
                 else str_split (lines_of content ! k) TAB @
                        replicate (6 - length (str_split (lines_of content ! k) TAB)) []))"
    by (simp add: updated_of_eq out_line_def matches_def parts_of_def pad_parts_append)
  from a b c d show ?thesis by blast
qed

theorem six_fields_when_clean_witness:
  "6 \<le> length scenario_args \<and>
   files (world_with scenario_file) (scenario_args ! 1) = Some scenario_file \<and>
   clean (scenario_args ! 3) \<and> clean (scenario_args ! 4) \<and> clean (scenario_args ! 5) \<and>
   main scenario_args (world_with scenario_file) =
     Inr (0, \<lparr>files = [queue_tsv \<mapsto> scenario_result], err_stream = [],
              accesses = [Read queue_tsv, Write queue_tsv], read_only = {}\<rparr>) \<and>
   lines_of scenario_result = updated_of scenario_args scenario_file \<and>
   \<not> comment_or_blank (updated_of scenario_args scenario_file ! 2) \<and>
   length (str_split (updated_of scenario_args scenario_file ! 2) TAB) = 6"
proof -
  have a: "6 \<le> length scenario_args" by (simp add: scenario_args_def)
  have b: "files (world_with scenario_file) (scenario_args ! 1) = Some scenario_file"
    by (simp add: scenario_args_def world_with_def)
  have r: "str_join [LF] (updated_of scenario_args scenario_file) @ [LF] = scenario_result"
    by (simp add: updated_of_scenario scenario_result_def)
  have m: "updated_of scenario_args scenario_file ! 2
             \<in> set (updated_of scenario_args scenario_file)"
    by (simp add: updated_of_scenario)
  have nc: "\<not> comment_or_blank (updated_of scenario_args scenario_file ! 2)"
    by (simp add: updated_of_scenario comment_or_blank_def ev)
  from six_fields_when_clean [OF a b scenario_run scenario_args_clean]
  have "lines_of (str_join [LF] (updated_of scenario_args scenario_file) @ [LF]) =
          updated_of scenario_args scenario_file"
    and "\<forall>l\<in>set (updated_of scenario_args scenario_file).
            \<not> comment_or_blank l \<longrightarrow> length (str_split l TAB) = 6"
    by blast+
  with a b scenario_args_clean scenario_run m nc show ?thesis by (simp add: r)
qed

text \<open>
  Against C3 as stated: with the note \<^verbatim>\<open>fixed<TAB>bug\<close> the update succeeds and the
  rewritten record line of the file has 7 tab-separated fields.
\<close>

theorem six_fields_counterexample:
  "main tab_note_args (world_with scenario_file) =
     Inr (0, \<lparr>files = [queue_tsv \<mapsto> tab_note_result], err_stream = [],
              accesses = [Read queue_tsv, Write queue_tsv], read_only = {}\<rparr>) \<and>
   lines_of tab_note_result ! 2 =
     row [''done'', ''T2'', ''x'', ''y'', ''abc123'', ''fixed'', ''bug''] \<and>
   \<not> comment_or_blank (lines_of tab_note_result ! 2) \<and>
   length (str_split (lines_of tab_note_result ! 2) TAB) = 7"
  by (simp add: ev tab_note_args_def scenario_file_def tab_note_result_def lines_of_def
      comment_or_blank_def)

text \<open>
  C4 (the scenario of the specification). On the file with the lines \<^verbatim>\<open># queue\<close>,
  \<^verbatim>\<open>pending T1 a b\<close> and \<^verbatim>\<open>pending T2 x y\<close> (tab-separated, two empty last fields) and the
  arguments T2, done, abc123, "fixed bug", \<^verbatim>\<open>main\<close> returns 0 and leaves the file with the
  first two lines as they were, the third line \<^verbatim>\<open>done T2 x y abc123 fixed bug\<close>, and a
  newline at the end.
\<close>

theorem scenario_update:
  "main scenario_args (world_with scenario_file) =
     Inr (0, \<lparr>files = [queue_tsv \<mapsto> scenario_result], err_stream = [],
              accesses = [Read queue_tsv, Write queue_tsv], read_only = {}\<rparr>)"
  by (simp add: ev scenario_args_def scenario_file_def scenario_result_def)

text \<open>
  C5 (applying the update twice), as the code has it. The first run succeeds; status,
  commit and note contain no line boundary; status contains no tab and does not start
  with \<^verbatim>\<open>#\<close>; and for some matching record one of status, task id, its fields 2 and 3,
  commit and note has a character that is not whitespace, so that its rewritten line is
  not blank. Then the second run with the same arguments succeeds too and leaves every
  file as the first run left it: only the list of file accesses grows. Commit and note
  may contain tabs.
\<close>

theorem reapply_same_content:
  assumes "6 \<le> length argv" and "files w (argv ! 1) = Some content"
    and "main argv w = Inr (0, w')"
    and "\<forall>ch\<in>set (argv ! 3 @ argv ! 4 @ argv ! 5). \<not> is_linebreak ch"
    and "TAB \<notin> set (argv ! 3)"
    and "\<not> startswith (argv ! 3) [HASH]"
    and "\<exists>l\<in>set (lines_of content). matches (argv ! 2) l \<and>
           (\<exists>ch\<in>set (argv ! 3 @ argv ! 2 @ parts_of l ! 2 @ parts_of l ! 3 @
                       argv ! 4 @ argv ! 5). \<not> isspace ch)"
  shows "main argv w' =
           Inr (0, w'\<lparr>accesses := accesses w' @ [Read (argv ! 1), Write (argv ! 1)]\<rparr>)"
proof -
  let ?t = "argv ! 2" and ?s = "argv ! 3" and ?c = "argv ! 4" and ?n = "argv ! 5"
  let ?upd = "updated_of argv content"
  let ?out = "str_join [LF] ?upd @ [LF]"
  have hit: "\<exists>l\<in>set (lines_of content). matches ?t l"
    by (rule main_success(1) [OF assms(1-3)])
  have rw: "argv ! 1 \<notin> read_only w" by (rule main_success(2) [OF assms(1-3)])
  have enc: "encodable ?out" by (rule main_success(3) [OF assms(1-3)])
  have w': "w' = w\<lparr>files := (files w)(argv ! 1 \<mapsto> ?out),
                  accesses := accesses w @ [Read (argv ! 1), Write (argv ! 1)]\<rparr>"
    by (rule main_success(4) [OF assms(1-3)])
  have fl: "files w' (argv ! 1) = Some ?out" by (simp add: w')
  have rw': "argv ! 1 \<notin> read_only w'" using rw by (simp add: w')
  have lines: "lines_of ?out = ?upd" using hit assms(4) by (rule lines_of_written)
  from assms(7) obtain l where l: "l \<in> set (lines_of content)" and m: "matches ?t l"
    and nb: "\<exists>ch\<in>set (?s @ ?t @ parts_of l ! 2 @ parts_of l ! 3 @ ?c @ ?n). \<not> isspace ch"
    by blast
  have "matches ?t (out_line ?t ?s ?c ?n l)"
    using m assms(5,6) nb by (rule out_line_still_matches)
  moreover have "out_line ?t ?s ?c ?n l \<in> set ?upd" using l by (simp add: updated_of_eq)
  ultimately have hit2: "\<exists>l\<in>set (lines_of ?out). matches ?t l" unfolding lines by blast
  have "updated_of argv ?out = map (out_line ?t ?s ?c ?n) ?upd"
    by (simp add: updated_of_eq [of argv ?out] lines)
  also have "\<dots> = ?upd"
    by (simp add: updated_of_eq [of argv content] out_line_again [OF assms(5)])
  finally have same: "updated_of argv ?out = ?upd" .
  have "main argv w' =
          Inr (0, w'\<lparr>files := (files w')(argv ! 1 \<mapsto> ?out),
                    accesses := accesses w' @ [Read (argv ! 1), Write (argv ! 1)]\<rparr>)"
    using main_match [OF assms(1) fl hit2] rw' enc same by simp
  moreover have "(files w')(argv ! 1 \<mapsto> ?out) = files w'"
    using fl by (simp add: fun_upd_idem)
  ultimately show ?thesis by simp
qed

theorem reapply_same_content_witness:
  "6 \<le> length tab_note_args \<and>
   files (world_with scenario_file) (tab_note_args ! 1) = Some scenario_file \<and>
   list_all (\<lambda>ch. \<not> is_linebreak ch) (tab_note_args ! 3 @ tab_note_args ! 4 @ tab_note_args ! 5) \<and>
   TAB \<notin> set (tab_note_args ! 3) \<and> TAB \<in> set (tab_note_args ! 5) \<and>
   \<not> startswith (tab_note_args ! 3) [HASH] \<and>
   matches (tab_note_args ! 2) (lines_of scenario_file ! 2) \<and>
   main tab_note_args (world_with scenario_file) =
     Inr (0, world_after tab_note_result [] [Read queue_tsv, Write queue_tsv]) \<and>
   main tab_note_args (world_after tab_note_result [] [Read queue_tsv, Write queue_tsv]) =
     Inr (0, world_after tab_note_result []
               [Read queue_tsv, Write queue_tsv, Read queue_tsv, Write queue_tsv])"
proof -
  have a: "6 \<le> length tab_note_args" by (simp add: tab_note_args_def)
  have b: "files (world_with scenario_file) (tab_note_args ! 1) = Some scenario_file"
    by (simp add: tab_note_args_def world_with_def)
  have c: "\<forall>ch\<in>set (tab_note_args ! 3 @ tab_note_args ! 4 @ tab_note_args ! 5).
             \<not> is_linebreak ch"
    by (simp add: tab_note_args_def u_def TAB_def is_linebreak_def)
  have d: "TAB \<notin> set (tab_note_args ! 3)" by (simp add: tab_note_args_def u_def TAB_def)
  have d': "TAB \<in> set (tab_note_args ! 5)" by (simp add: tab_note_args_def)
  have e: "\<not> startswith (tab_note_args ! 3) [HASH]"
    by (simp add: tab_note_args_def startswith_def u_def HASH_def)
  have m: "matches (tab_note_args ! 2) (lines_of scenario_file ! 2)"
    by (simp add: lines_of_scenario matches_def comment_or_blank_def parts_of_def
        tab_note_args_def ev)
  have "lines_of scenario_file ! 2 \<in> set (lines_of scenario_file)"
    by (simp add: lines_of_scenario)
  moreover have "\<exists>ch\<in>set (tab_note_args ! 3 @ tab_note_args ! 2 @
        parts_of (lines_of scenario_file ! 2) ! 2 @ parts_of (lines_of scenario_file ! 2) ! 3 @
        tab_note_args ! 4 @ tab_note_args ! 5). \<not> isspace ch"
    by (simp add: tab_note_args_def u_def isspace_def)
  ultimately have f: "\<exists>l\<in>set (lines_of scenario_file). matches (tab_note_args ! 2) l \<and>
           (\<exists>ch\<in>set (tab_note_args ! 3 @ tab_note_args ! 2 @ parts_of l ! 2 @ parts_of l ! 3 @
                       tab_note_args ! 4 @ tab_note_args ! 5). \<not> isspace ch)"
    using m by blast
  have w: "world_after tab_note_result [] [Read queue_tsv, Write queue_tsv]
             \<lparr>accesses := accesses (world_after tab_note_result []
                                      [Read queue_tsv, Write queue_tsv]) @
                           [Read (tab_note_args ! 1), Write (tab_note_args ! 1)]\<rparr> =
           world_after tab_note_result []
             [Read queue_tsv, Write queue_tsv, Read queue_tsv, Write queue_tsv]"
    by (simp add: world_after_def tab_note_args_def)
  have again: "main tab_note_args (world_after tab_note_result []
                                     [Read queue_tsv, Write queue_tsv]) =
     Inr (0, world_after tab_note_result []
               [Read queue_tsv, Write queue_tsv, Read queue_tsv, Write queue_tsv])"
    using reapply_same_content [OF a b tab_note_run c d e f] by (simp only: w)
  have c': "list_all (\<lambda>ch. \<not> is_linebreak ch)
              (tab_note_args ! 3 @ tab_note_args ! 4 @ tab_note_args ! 5)"
    using c by (simp only: list_all_iff)
  from a b c' d d' e m tab_note_run again show ?thesis by blast
qed

text \<open>
  Against C5 as stated, one run pair for each condition above. With the status \<^verbatim>\<open>#done\<close>
  the record becomes a comment and the second run returns 1; a tab in the status moves
  the task id out of field 1 and the second run returns 1; a newline in the status, in
  the commit or in the note makes the second run write a longer file; with a blank task
  id and empty status, commit and note the record becomes a blank line and the second
  run returns 1.
\<close>

theorem reapply_counterexample:
  "(main hash_args (world_with scenario_file) =
      Inr (0, world_after hash_result [] [Read queue_tsv, Write queue_tsv]) \<and>
    main hash_args (world_after hash_result [] [Read queue_tsv, Write queue_tsv]) =
      Inr (1, world_after hash_result (u ''Task id not found: T2'' @ [LF])
                [Read queue_tsv, Write queue_tsv, Read queue_tsv])) \<and>
   (main tab_status_args (world_with one_record_file) =
      Inr (0, world_after tab_status_result [] [Read queue_tsv, Write queue_tsv]) \<and>
    main tab_status_args (world_after tab_status_result [] [Read queue_tsv, Write queue_tsv]) =
      Inr (1, world_after tab_status_result (u ''Task id not found: T2'' @ [LF])
                [Read queue_tsv, Write queue_tsv, Read queue_tsv])) \<and>
   (main lf_status_args (world_with one_record_file) =
      Inr (0, world_after lf_status_result [] [Read queue_tsv, Write queue_tsv]) \<and>
    main lf_status_args (world_after lf_status_result [] [Read queue_tsv, Write queue_tsv]) =
      Inr (0, world_after lf_status_again []
                [Read queue_tsv, Write queue_tsv, Read queue_tsv, Write queue_tsv]) \<and>
    lf_status_again \<noteq> lf_status_result) \<and>
   (main lf_commit_args (world_with one_record_file) =
      Inr (0, world_after lf_commit_result [] [Read queue_tsv, Write queue_tsv]) \<and>
    main lf_commit_args (world_after lf_commit_result [] [Read queue_tsv, Write queue_tsv]) =
      Inr (0, world_after lf_commit_again []
                [Read queue_tsv, Write queue_tsv, Read queue_tsv, Write queue_tsv]) \<and>
    lf_commit_again \<noteq> lf_commit_result) \<and>
   (main lf_note_args (world_with one_record_file) =
      Inr (0, world_after lf_note_result [] [Read queue_tsv, Write queue_tsv]) \<and>
    main lf_note_args (world_after lf_note_result [] [Read queue_tsv, Write queue_tsv]) =
      Inr (0, world_after lf_note_again []
                [Read queue_tsv, Write queue_tsv, Read queue_tsv, Write queue_tsv]) \<and>
    lf_note_again \<noteq> lf_note_result) \<and>
   (main blank_args (world_with blank_file) =
      Inr (0, world_after blank_result [] [Read queue_tsv, Write queue_tsv]) \<and>
    main blank_args (world_after blank_result [] [Read queue_tsv, Write queue_tsv]) =
      Inr (1, world_after blank_result (u ''Task id not found:  '' @ [LF])
                [Read queue_tsv, Write queue_tsv, Read queue_tsv]))"
  using hash_twice tab_status_twice lf_status_twice lf_commit_twice lf_note_twice blank_twice
    results_differ
  by blast




text \<open>
  C7 (usage error). With fewer than 5 arguments after the program name, \<^verbatim>\<open>main\<close> returns
  exit code 2 and prints the usage line on the error stream; the files and the list of
  file accesses are unchanged, whatever the files are, so no file is read or written.
\<close>

theorem usage_error:
  "length (tl argv) < 5 \<Longrightarrow>
   main argv w = Inr (2, w\<lparr>err_stream := err_stream w @ usage_msg @ [LF]\<rparr>)"
proof -
  assume "length (tl argv) < 5"
  then have "length argv < 6" by simp
  then show ?thesis by (simp add: main_usage print_stderr_def)
qed

theorem usage_error_witness:
  "length (tl few_args) < 5 \<and>
   main few_args \<lparr>files = Map.empty, err_stream = [], accesses = [], read_only = {}\<rparr> =
     Inr (2, \<lparr>files = Map.empty, err_stream = usage_msg @ [LF], accesses = [], read_only = {}\<rparr>)"
  using usage_error [of few_args "\<lparr>files = Map.empty, err_stream = [], accesses = [], read_only = {}\<rparr>"]
  by (simp add: few_args_def)

text \<open>
  C8 (duplicate ids). When two (or more) record lines carry the task id, every matching
  line, not only the first, is rewritten in \<^verbatim>\<open>updated\<close> as status, task id, its fields 2
  and 3, commit, note; the run either fails to write (the file cannot be opened, or the
  text cannot be encoded) or succeeds, and a successful update writes \<^verbatim>\<open>updated\<close> and
  exits with code 0.
\<close>

theorem duplicates_all_updated:
  assumes "6 \<le> length argv" and "files w (argv ! 1) = Some content"
    and "i < j" and "j < length (lines_of content)"
    and "matches (argv ! 2) (lines_of content ! i)"
    and "matches (argv ! 2) (lines_of content ! j)"
  shows "main argv w =
           (if argv ! 1 \<in> read_only w then
              Inl (OSError, w\<lparr>accesses := accesses w @ [Read (argv ! 1)]\<rparr>)
            else if encodable (str_join [LF] (updated_of argv content) @ [LF]) then
              Inr (0, w\<lparr>files := (files w)(argv ! 1 \<mapsto>
                                  str_join [LF] (updated_of argv content) @ [LF]),
                        accesses := accesses w @ [Read (argv ! 1), Write (argv ! 1)]\<rparr>)
            else
              Inl (UnicodeEncodeError,
                   w\<lparr>files := (files w)(argv ! 1 \<mapsto> []),
                     accesses := accesses w @ [Read (argv ! 1), Write (argv ! 1)]\<rparr>)) \<and>
         (\<forall>k<length (lines_of content). matches (argv ! 2) (lines_of content ! k) \<longrightarrow>
            updated_of argv content ! k =
              str_join [TAB] [argv ! 3, argv ! 2, parts_of (lines_of content ! k) ! 2,
                              parts_of (lines_of content ! k) ! 3, argv ! 4, argv ! 5])"
proof -
  have "lines_of content ! j \<in> set (lines_of content)" using assms(4) by simp
  with assms(6) have "\<exists>l\<in>set (lines_of content). matches (argv ! 2) l" by blast
  note a = main_match [OF assms(1,2) this]
  have b: "\<forall>k<length (lines_of content). matches (argv ! 2) (lines_of content ! k) \<longrightarrow>
            updated_of argv content ! k =
              str_join [TAB] [argv ! 3, argv ! 2, parts_of (lines_of content ! k) ! 2,
                              parts_of (lines_of content ! k) ! 3, argv ! 4, argv ! 5]"
    by (simp add: updated_of_eq out_line_match)
  from a b show ?thesis by blast
qed

theorem duplicates_all_updated_witness:
  "6 \<le> length scenario_args \<and>
   files (world_with dup_file) (scenario_args ! 1) = Some dup_file \<and>
   (0::nat) < 2 \<and> 2 < length (lines_of dup_file) \<and>
   matches (scenario_args ! 2) (lines_of dup_file ! 0) \<and>
   matches (scenario_args ! 2) (lines_of dup_file ! 2) \<and>
   main scenario_args (world_with dup_file) =
     Inr (0, world_after dup_result [] [Read queue_tsv, Write queue_tsv]) \<and>
   updated_of scenario_args dup_file ! 0 =
     str_join [TAB] [scenario_args ! 3, scenario_args ! 2, parts_of (lines_of dup_file ! 0) ! 2,
                     parts_of (lines_of dup_file ! 0) ! 3, scenario_args ! 4, scenario_args ! 5] \<and>
   updated_of scenario_args dup_file ! 2 =
     str_join [TAB] [scenario_args ! 3, scenario_args ! 2, parts_of (lines_of dup_file ! 2) ! 2,
                     parts_of (lines_of dup_file ! 2) ! 3, scenario_args ! 4, scenario_args ! 5] \<and>
   updated_of scenario_args dup_file ! 0 =
     row [''done'', ''T2'', ''a'', ''b'', ''abc123'', ''fixed bug''] \<and>
   updated_of scenario_args dup_file ! 2 =
     row [''done'', ''T2'', ''x'', ''y'', ''abc123'', ''fixed bug'']"
proof -
  have a: "6 \<le> length scenario_args" by (simp add: scenario_args_def)
  have b: "files (world_with dup_file) (scenario_args ! 1) = Some dup_file"
    by (simp add: scenario_args_def world_with_def)
  have c: "(0::nat) < 2" by simp
  have d: "2 < length (lines_of dup_file)" by (simp add: lines_of_dup)
  have d0: "0 < length (lines_of dup_file)" by (simp add: lines_of_dup)
  have e: "matches (scenario_args ! 2) (lines_of dup_file ! 0)"
    by (simp add: lines_of_dup matches_def comment_or_blank_def parts_of_def scenario_args_def ev)
  have f: "matches (scenario_args ! 2) (lines_of dup_file ! 2)"
    by (simp add: lines_of_dup matches_def comment_or_blank_def parts_of_def scenario_args_def ev)
  from duplicates_all_updated [OF a b c d e f]
  have all: "\<forall>k<length (lines_of dup_file). matches (scenario_args ! 2) (lines_of dup_file ! k) \<longrightarrow>
            updated_of scenario_args dup_file ! k =
              str_join [TAB] [scenario_args ! 3, scenario_args ! 2,
                              parts_of (lines_of dup_file ! k) ! 2,
                              parts_of (lines_of dup_file ! k) ! 3,
                              scenario_args ! 4, scenario_args ! 5]"
    by blast
  from all d0 e have g0: "updated_of scenario_args dup_file ! 0 =
     str_join [TAB] [scenario_args ! 3, scenario_args ! 2, parts_of (lines_of dup_file ! 0) ! 2,
                     parts_of (lines_of dup_file ! 0) ! 3, scenario_args ! 4, scenario_args ! 5]"
    by blast
  from all d f have g2: "updated_of scenario_args dup_file ! 2 =
     str_join [TAB] [scenario_args ! 3, scenario_args ! 2, parts_of (lines_of dup_file ! 2) ! 2,
                     parts_of (lines_of dup_file ! 2) ! 3, scenario_args ! 4, scenario_args ! 5]"
    by blast
  have u0: "updated_of scenario_args dup_file ! 0 =
     row [''done'', ''T2'', ''a'', ''b'', ''abc123'', ''fixed bug'']"
    and u2: "updated_of scenario_args dup_file ! 2 =
     row [''done'', ''T2'', ''x'', ''y'', ''abc123'', ''fixed bug'']"
    by (simp_all add: updated_of_dup)
  from a b c d e f dup_run g0 g2 u0 u2 show ?thesis by blast
qed

text \<open>
  C9 (whitespace-only lines). A line made of tabs and other whitespace only is blank for
  the loop: it is appended to \<^verbatim>\<open>updated\<close> as it is, with no padding and no cut, and the
  \<^verbatim>\<open>found\<close> flag stays what it was, whatever the task id, the empty one included.
\<close>

theorem whitespace_line_passes:
  "\<forall>c\<in>set line. isspace c \<Longrightarrow>
   loop_body task_id status commit note line st = st\<lparr>updated := updated st @ [line]\<rparr>"
  by (simp add: loop_body_def strip_empty_iff)

theorem whitespace_line_passes_witness:
  "list_all isspace [TAB, TAB, 32] \<and>
   loop_body [] (u ''done'') (u ''abc123'') (u ''fixed'') [TAB, TAB, 32]
       \<lparr>updated = [], found = False\<rparr> =
     \<lparr>updated = [[TAB, TAB, 32]], found = False\<rparr>"
  using whitespace_line_passes [of "[TAB, TAB, 32]" "[]" "u ''done''" "u ''abc123''" "u ''fixed''"
      "\<lparr>updated = [], found = False\<rparr>"]
  by (simp add: isspace_def TAB_def)



end
